theory Spec2Isabelle
  imports Complex_Main
begin

section \<open>Python values, errors and the Document record\<close>

text \<open>
  The three parsers (DocumentsParser.py, TelegramParser.py, VKParser.py) build
  langchain Documents out of dynamically typed data.  A Python value that the code
  stores, tests for truth or iterates over is a \<open>pyval\<close>; a dict is an association list
  in insertion order, read with \<open>map_of\<close> (Python's \<open>d.get(k)\<close>).
\<close>

datatype pyval =
    PNone
  | PInt int
  | PStr string
  | PBool bool
  | PList "pyval list"
  | PDict "(string \<times> pyval) list"

text \<open>
  Exceptions.  A message built by an f-string is kept as the constructor (the fixed
  text) applied to the interpolated value, so that "the message names x" reads
  "the error carries x".
  \<^item> \<open>UnsupportedFormat s\<close>: \<open>Exception(f"<unsupported file format>: {suffix}")\<close>
  \<^item> \<open>WrongPath s\<close>: \<open>Exception(f"<wrong path>: {dir_path}")\<close>
  \<^item> \<open>PeerNotRecognised s\<close>: the \<open>ValueError\<close> of \<open>_normalize_peer_ids\<close> for a
    failed resolution, built from \<open>pid\<close>
  \<^item> \<open>PeerIsCommunity s\<close>: the \<open>ValueError\<close> of \<open>_normalize_peer_ids\<close> for a
    resolution that is not positive, built from \<open>pid\<close>
  \<^item> \<open>AttributeError\<close>, \<open>TypeError\<close>, \<open>KeyError\<close>: raised by the interpreter
  \<^item> \<open>ValidationError\<close>: raised by the constructor of \<open>Document\<close>
  \<^item> \<open>LoaderError s\<close>: whatever the file-format backend raises
  \<^item> \<open>ApiError s\<close>: whatever the VK or Telegram client raises (network, API)
\<close>

datatype error =
    UnsupportedFormat string
  | WrongPath string
  | PeerNotRecognised string
  | PeerIsCommunity string
  | AttributeError
  | TypeError
  | KeyError
  | ValidationError
  | LoaderError string
  | ApiError string

record Document =
  page_content :: pyval
  metadata :: "(string \<times> pyval) list"

text \<open>Python truth value: \<open>None\<close>, \<open>0\<close>, \<open>""\<close>, \<open>False\<close>, \<open>[]\<close> and \<open>{}\<close> are false.\<close>

fun truthy :: "pyval \<Rightarrow> bool" where
  "truthy PNone = False"
| "truthy (PInt i) = (i \<noteq> 0)"
| "truthy (PStr s) = (s \<noteq> [])"
| "truthy (PBool b) = b"
| "truthy (PList xs) = (xs \<noteq> [])"
| "truthy (PDict kvs) = (kvs \<noteq> [])"

text \<open>\<open>d.get(k)\<close>: the value, or \<open>None\<close> for a missing key.\<close>

definition dict_get :: "(string \<times> pyval) list \<Rightarrow> string \<Rightarrow> pyval" where
  "dict_get d k = (case map_of d k of None \<Rightarrow> PNone | Some v \<Rightarrow> v)"

text \<open>\<open>a or b\<close>.\<close>

definition py_or :: "pyval \<Rightarrow> pyval \<Rightarrow> pyval" where
  "py_or a b = (if truthy a then a else b)"

definition is_str :: "pyval \<Rightarrow> bool" where
  "is_str v = (case v of PStr _ \<Rightarrow> True | _ \<Rightarrow> False)"

text \<open>
  \<open>Document(page_content=..., metadata=...)\<close>: langchain's \<open>Document\<close> declares
  \<open>page_content: str\<close> and validates it; a value that is not a string raises a
  validation error, and no Document is built.
\<close>

definition make_document :: "pyval \<Rightarrow> (string \<times> pyval) list \<Rightarrow> error + Document" where
  "make_document content md =
     (if is_str content then Inr \<lparr> page_content = content, metadata = md \<rparr>
      else Inl ValidationError)"

section \<open>VKParser.py\<close>

subsection \<open>\<open>_vk_message_to_document\<close>\<close>

text \<open>
  \<open>att.get("type", "unknown")\<close> for one element of the attachment list: only a dict
  has \<open>get\<close>; anything else raises \<open>AttributeError\<close>.
\<close>

fun attachment_type :: "pyval \<Rightarrow> error + pyval" where
  "attachment_type (PDict kvs) =
     Inr (case map_of kvs ''type'' of None \<Rightarrow> PStr ''unknown'' | Some v \<Rightarrow> v)"
| "attachment_type _ = Inl AttributeError"

fun att_summ_of :: "pyval list \<Rightarrow> error + pyval list" where
  "att_summ_of [] = Inr []"
| "att_summ_of (a # as) =
     (case attachment_type a of
        Inl e \<Rightarrow> Inl e
      | Inr t \<Rightarrow> (case att_summ_of as of Inl e \<Rightarrow> Inl e | Inr ts \<Rightarrow> Inr (t # ts)))"

text \<open>
  The comprehension \<open>[att.get("type", "unknown") for att in attachments]\<close> over
  \<open>msg.get("attachments") or []\<close>.  A list is iterated; a non-empty string yields
  one-character strings and a non-empty dict yields its keys, neither of which has
  \<open>get\<close>; a number or \<open>True\<close> is not iterable.  The false values never reach the
  comprehension: \<open>or\<close> replaces them by \<open>[]\<close>.
\<close>

fun att_summary :: "pyval \<Rightarrow> error + pyval list" where
  "att_summary (PList xs) = att_summ_of xs"
| "att_summary (PStr s) = (if s = [] then Inr [] else Inl AttributeError)"
| "att_summary (PDict kvs) = (if kvs = [] then Inr [] else Inl AttributeError)"
| "att_summary PNone = Inl TypeError"
| "att_summary (PInt i) = Inl TypeError"
| "att_summary (PBool b) = Inl TypeError"

definition vk_message_to_document :: "(string \<times> pyval) list \<Rightarrow> int \<Rightarrow> error + Document" where
  "vk_message_to_document msg peer_id =
     (let text = py_or (dict_get msg ''text'') (PStr '''');
          attachments = py_or (dict_get msg ''attachments'') (PList [])
      in case att_summary attachments of
           Inl e \<Rightarrow> Inl e
         | Inr att_summ \<Rightarrow>
             make_document text
               [(''platform'', PStr ''vk''),
                (''peer_id'', PInt peer_id),
                (''message_id'', dict_get msg ''id''),
                (''date'', dict_get msg ''date''),
                (''from_id'', dict_get msg ''from_id''),
                (''attachments'', PList att_summ),
                (''has_forward'', PBool (truthy (dict_get msg ''fwd_messages'')))])"

subsection \<open>\<open>_fetch_history\<close>\<close>

text \<open>
  The reply of \<open>messages.getHistory\<close> is a dict of which the loop reads the key
  \<open>items\<close> only, with \<open>resp.get("items", [])\<close>; \<open>reply_items\<close> is that entry, absent or a
  list of raw messages.  The endpoint is a parameter: a function of the request
  \<open>(peer_id, count, offset)\<close> that raises (\<open>Inl\<close>) or replies.  Within one fetch the
  offset grows strictly from call to call, so no request is issued twice.

  What the loop does to the outside world is its trace: the requests it sends, the
  batches it receives and the pauses it takes, in order.
\<close>

type_synonym vk_message = "(string \<times> pyval) list"

record history_reply =
  reply_items :: "vk_message list option"

datatype event =
    Request int int int
  | Response "vk_message list"
  | Sleep real

type_synonym history_endpoint = "int \<Rightarrow> int \<Rightarrow> int \<Rightarrow> error + history_reply"

definition get_items :: "history_reply \<Rightarrow> vk_message list" where
  "get_items resp = (case reply_items resp of None \<Rightarrow> [] | Some b \<Rightarrow> b)"

function fetch_loop ::
  "history_endpoint \<Rightarrow> int \<Rightarrow> int \<Rightarrow> int \<Rightarrow> real \<Rightarrow> vk_message list \<Rightarrow> int \<Rightarrow> int
     \<Rightarrow> (error + vk_message list) \<times> event list" where
  "fetch_loop getHistory peer_id limit per_call pause items got offset =
     (if got < limit then
        (let count = min per_call (limit - got) in
         case getHistory peer_id count offset of
           Inl e \<Rightarrow> (Inl e, [Request peer_id count offset])
         | Inr resp \<Rightarrow>
             (let batch = get_items resp in
              if batch = [] then
                (Inr items, [Request peer_id count offset, Response batch])
              else if int (length batch) < count then
                (Inr (items @ batch),
                 [Request peer_id count offset, Response batch, Sleep pause])
              else
                (case fetch_loop getHistory peer_id limit per_call pause (items @ batch)
                        (got + int (length batch)) (offset + int (length batch)) of
                   (r, evs) \<Rightarrow>
                     (r, Request peer_id count offset # Response batch # Sleep pause # evs))))
      else (Inr items, []))"
  by pat_completeness auto
termination
  by (relation "measure (\<lambda>(getHistory, peer_id, limit, per_call, pause, items, got, offset).
                    nat (limit - got))") auto

definition fetch_history ::
  "history_endpoint \<Rightarrow> int \<Rightarrow> int \<Rightarrow> real \<Rightarrow> (error + vk_message list) \<times> event list" where
  "fetch_history getHistory peer_id limit pause =
     fetch_loop getHistory peer_id limit (if limit > 200 then 200 else limit) pause [] 0 0"

text \<open>
  Reading the trace: the requests in order, and the number of messages received.
\<close>

fun requests :: "event list \<Rightarrow> (int \<times> int \<times> int) list" where
  "requests [] = []"
| "requests (Request p c off # evs) = (p, c, off) # requests evs"
| "requests (Response b # evs) = requests evs"
| "requests (Sleep t # evs) = requests evs"

fun fetched :: "event list \<Rightarrow> int" where
  "fetched [] = 0"
| "fetched (Request p c off # evs) = fetched evs"
| "fetched (Response b # evs) = int (length b) + fetched evs"
| "fetched (Sleep t # evs) = fetched evs"

subsection \<open>\<open>_resolve_screen_name\<close> and \<open>_normalize_peer_ids\<close>\<close>

text \<open>
  Strings are ASCII here; \<open>str.strip()\<close> removes the ASCII white space of Python
  (codes 9 to 13, 28 to 31 and 32) at both ends.
\<close>

definition is_space :: "char \<Rightarrow> bool" where
  "is_space c = (of_char c \<in> {9, 10, 11, 12, 13, 28, 29, 30, 31, 32 :: nat})"

definition strip :: "string \<Rightarrow> string" where
  "strip s = rev (dropWhile is_space (rev (dropWhile is_space s)))"

definition startswith :: "string \<Rightarrow> string \<Rightarrow> bool" where
  "startswith s pre = (take (length pre) s = pre)"

text \<open>\<open>name.rsplit("/", 1)[-1]\<close>: what follows the last slash (all of it when there is none).\<close>

definition after_last_slash :: "string \<Rightarrow> string" where
  "after_last_slash s = rev (takeWhile (\<lambda>c. c \<noteq> CHR ''/'') (rev s))"

text \<open>The name that is sent to the endpoint: the first three lines of \<open>_resolve_screen_name\<close>.\<close>

definition screen_name_of :: "string \<Rightarrow> string" where
  "screen_name_of name =
     (let name = strip name
      in if startswith name ''https://vk.com/'' then after_last_slash name else name)"

text \<open>
  The reply of \<open>utils.resolveScreenName\<close>: empty (VK answers \<open>[]\<close> for an unknown name),
  or a dict of which the code reads \<open>type\<close> (with \<open>get\<close>) and \<open>object_id\<close> (by
  subscript, an integer), either of which may be absent.
\<close>

datatype name_reply = EmptyReply | NameReply "string option" "int option"

type_synonym name_endpoint = "string \<Rightarrow> error + name_reply"

text \<open>
  Everything after the clean-up runs inside \<open>try ... except Exception: return None\<close>:
  an exception of the endpoint, and the \<open>KeyError\<close> of a missing \<open>object_id\<close>, give
  \<open>None\<close>.  The function returns its result together with its trace: the names it
  sent to the endpoint, in order.  The body calls the endpoint once.
\<close>

definition resolve_screen_name :: "name_endpoint \<Rightarrow> string \<Rightarrow> int option \<times> string list" where
  "resolve_screen_name resolveScreenName name =
     (let name = screen_name_of name
      in ((case resolveScreenName name of
             Inl e \<Rightarrow> None
           | Inr EmptyReply \<Rightarrow> None
           | Inr (NameReply ty object_id) \<Rightarrow>
               if ty = Some ''user'' then
                 (case object_id of None \<Rightarrow> None | Some i \<Rightarrow> Some i)
               else if ty = Some ''group'' then
                 (case object_id of None \<Rightarrow> None | Some i \<Rightarrow> Some (- i))
               else None),
          [name]))"

datatype peer = IntPeer int | StrPeer string

text \<open>
  The loop of \<open>_normalize_peer_ids\<close>, with the names sent to the endpoint by the
  resolutions it made, in order.
\<close>

fun normalize_loop ::
  "name_endpoint \<Rightarrow> peer list \<Rightarrow> int list \<Rightarrow> (error + int list) \<times> string list" where
  "normalize_loop vk [] out = (Inr out, [])"
| "normalize_loop vk (IntPeer pid # peer_ids) out = normalize_loop vk peer_ids (out @ [pid])"
| "normalize_loop vk (StrPeer pid # peer_ids) out =
     (case resolve_screen_name vk pid of
        (None, sent) \<Rightarrow> (Inl (PeerNotRecognised pid), sent)
      | (Some resolved, sent) \<Rightarrow>
          if resolved > 0 then
            (case normalize_loop vk peer_ids (out @ [resolved]) of
               (r, sent') \<Rightarrow> (r, sent @ sent'))
          else (Inl (PeerIsCommunity pid), sent))"

definition normalize_peer_ids ::
  "name_endpoint \<Rightarrow> peer list \<Rightarrow> (error + int list) \<times> string list" where
  "normalize_peer_ids vk peer_ids = normalize_loop vk peer_ids []"

section \<open>TelegramParser.py\<close>

text \<open>
  The attributes of a Telethon message that \<open>get_messages_from_chats\<close> reads:
  \<open>msg.text\<close> and \<open>msg.sender_id\<close> may be \<open>None\<close>; \<open>tg_date\<close> is \<open>str(msg.date)\<close>;
  \<open>tg_media\<close> is the class name of \<open>msg.media\<close>, or \<open>None\<close> when the message has no
  media.
\<close>

record tg_message =
  tg_text :: "string option"
  tg_sender_id :: "int option"
  tg_id :: int
  tg_date :: string
  tg_media :: "string option"

definition tg_document :: "string \<Rightarrow> tg_message \<Rightarrow> Document" where
  "tg_document chat msg =
     \<lparr> page_content = PStr (case tg_text msg of None \<Rightarrow> '''' | Some t \<Rightarrow> t),
       metadata =
         [(''source'', (case tg_sender_id msg of None \<Rightarrow> PNone | Some i \<Rightarrow> PInt i)),
          (''source_path'', PStr chat),
          (''message_id'', PInt (tg_id msg)),
          (''date'', PStr (tg_date msg)),
          (''type'', PStr (case tg_media msg of Some c \<Rightarrow> c | None \<Rightarrow> ''text''))] \<rparr>"

text \<open>
  \<open>client.iter_messages(chat, limit=messages_limit)\<close> is a parameter: the call builds
  an asynchronous iterator, here the list of the messages it would yield, and sends
  nothing yet.  The code wraps it, \<open>tqdm(client.iter_messages(...))\<close>, with the
  \<open>tqdm\<close> of \<open>from tqdm import tqdm\<close>.  That class has \<open>__iter__\<close> and no
  \<open>__aiter__\<close>, so \<open>async for\<close> over it raises \<open>TypeError\<close> before any message is
  read.  The exception leaves the function.
\<close>

datatype 'a tqdm = Tqdm "'a list"

fun async_for :: "'a tqdm \<Rightarrow> error + 'a list" where
  "async_for (Tqdm iterable) = Inl TypeError"

fun chats_loop ::
  "(string \<Rightarrow> int \<Rightarrow> tg_message list) \<Rightarrow> string list \<Rightarrow> int \<Rightarrow> Document list
     \<Rightarrow> error + Document list" where
  "chats_loop iter_messages [] messages_limit docs = Inr docs"
| "chats_loop iter_messages (chat # chats) messages_limit docs =
     (case async_for (Tqdm (iter_messages chat messages_limit)) of
        Inl e \<Rightarrow> Inl e
      | Inr msgs \<Rightarrow>
          chats_loop iter_messages chats messages_limit (docs @ map (tg_document chat) msgs))"

definition get_messages_from_chats ::
  "(string \<Rightarrow> int \<Rightarrow> tg_message list) \<Rightarrow> string list \<Rightarrow> int \<Rightarrow> error + Document list" where
  "get_messages_from_chats iter_messages chats messages_limit =
     chats_loop iter_messages chats messages_limit []"

section \<open>DocumentsParser.py\<close>

subsection \<open>Paths and \<open>get_document_loader\<close>\<close>

text \<open>
  A \<open>pathlib.Path\<close> is taken by what the code reads of it: \<open>str(p)\<close>, \<open>p.as_posix()\<close>
  and \<open>p.name\<close>.  \<open>p.suffix\<close> is computed from the name as pathlib does:
  \<open>i = name.rfind('.')\<close>, and the suffix is \<open>name[i:]\<close> when \<open>0 < i < len(name) - 1\<close>,
  else empty.
\<close>

record Path =
  path_str :: string
  as_posix :: string
  path_name :: string

definition rfind_dot :: "string \<Rightarrow> nat option" where
  "rfind_dot name =
     (if CHR ''.'' \<in> set name
      then Some (length name - 1 - length (takeWhile (\<lambda>c. c \<noteq> CHR ''.'') (rev name)))
      else None)"

definition path_suffix :: "Path \<Rightarrow> string" where
  "path_suffix p =
     (let name = path_name p
      in case rfind_dot name of
           None \<Rightarrow> []
         | Some i \<Rightarrow> if 0 < i \<and> i < length name - 1 then drop i name else [])"

datatype loader_class =
    UnstructuredPDFLoader
  | UnstructuredWordDocumentLoader
  | UnstructuredMarkdownLoader
  | UnstructuredPowerPointLoader

record loader =
  loader_class :: loader_class
  file_path :: string
  mode :: string
  strategy :: string
  languages :: "string list"
  include_page_breaks :: bool

text \<open>
  \<open>get_document_loader\<close> returns a loader, or returns (it does not raise) an
  \<open>Exception\<close> object.
\<close>

datatype loader_or_exception = Loader loader | ExceptionObject error

definition get_document_loader :: "Path \<Rightarrow> string \<Rightarrow> bool \<Rightarrow> loader_or_exception" where
  "get_document_loader document_path mode0 include_page_breaks0 =
     (let suffix = path_suffix document_path;
          make = (\<lambda>cls. Loader \<lparr> loader_class = cls,
                                  file_path = as_posix document_path,
                                  mode = mode0,
                                  strategy = ''auto'',
                                  languages = [''rus'', ''eng''],
                                  include_page_breaks = include_page_breaks0 \<rparr>)
      in if suffix = ''.pdf'' then make UnstructuredPDFLoader
         else if suffix = ''.docx'' then make UnstructuredWordDocumentLoader
         else if suffix = ''.md'' then make UnstructuredMarkdownLoader
         else if suffix = ''.pptx'' then make UnstructuredPowerPointLoader
         else ExceptionObject (UnsupportedFormat suffix))"

subsection \<open>\<open>parse_document\<close>\<close>

text \<open>
  Documents are objects: \<open>parse_document\<close> assigns to entries of \<open>doc.metadata\<close>, so
  they live in a store, a list addressed by position, and a list of documents is a
  list of addresses.  The second component of the state is what \<open>print\<close> wrote: the
  path and the exception of each caught failure.

  The file-format backend is a parameter \<open>backend\<close>: for a configured loader it raises
  or gives the documents (text and the metadata the loader sets) that the file
  parses to.  \<open>loader.load()\<close> is langchain's \<open>list(self.lazy_load())\<close>: every call
  parses the file again and builds new Document objects, so \<open>load\<close> allocates.
\<close>

record pstate =
  store :: "Document list"
  printed :: "(string \<times> error) list"

type_synonym backend = "loader \<Rightarrow> error + Document list"

definition load :: "backend \<Rightarrow> loader \<Rightarrow> pstate \<Rightarrow> (error + nat list) \<times> pstate" where
  "load backend ld st =
     (case backend ld of
        Inl e \<Rightarrow> (Inl e, st)
      | Inr ds \<Rightarrow>
          (Inr [length (store st) ..< length (store st) + length ds],
           st\<lparr>store := store st @ ds\<rparr>))"

text \<open>\<open>d[k] = v\<close> on a dict: an existing key keeps its place, a new key goes last.\<close>

fun dict_set :: "(string \<times> pyval) list \<Rightarrow> string \<Rightarrow> pyval \<Rightarrow> (string \<times> pyval) list" where
  "dict_set [] k v = [(k, v)]"
| "dict_set ((k', v') # d) k v = (if k' = k then (k, v) # d else (k', v') # dict_set d k v)"

text \<open>
  The body of the \<open>for\<close> loop of \<open>parse_document\<close> on the document at address \<open>a\<close>,
  an address of the store; \<open>doc.__class__.__name__\<close> is the name of the class
  \<open>Document\<close>.
\<close>

definition set_source_metadata :: "Path \<Rightarrow> pstate \<Rightarrow> nat \<Rightarrow> pstate" where
  "set_source_metadata document_path st a =
     (let doc = store st ! a;
          m1 = dict_set (metadata doc) ''source'' (PStr (path_name document_path));
          m2 = dict_set m1 ''source_path'' (PStr (path_str document_path));
          m3 = dict_set m2 ''type'' (PStr ''Document'')
      in st\<lparr>store := (store st)[a := doc\<lparr>metadata := m3\<rparr>]\<rparr>)"

text \<open>
  What \<open>parse_document\<close> returns: a list of documents, or the exception object it
  caught.  The function is taken without extra keyword arguments, so that
  \<open>Path(document_path, **kwargs)\<close> is the path.  \<open>get_document_loader\<close> is called
  with its defaults; when it returned an exception object, \<open>loader.load()\<close> raises
  \<open>AttributeError\<close>, which is caught like any other failure, printed and returned.
  The loop runs over the addresses that the first \<open>load\<close> has just allocated, and the
  function returns those of the second \<open>load\<close>.
\<close>

datatype parsed = Docs "nat list" | ExcValue error

definition parse_document :: "backend \<Rightarrow> Path \<Rightarrow> pstate \<Rightarrow> parsed \<times> pstate" where
  "parse_document backend document_path st =
     (let failed = (\<lambda>e s. (ExcValue e, s\<lparr>printed := printed s @ [(path_str document_path, e)]\<rparr>))
      in case get_document_loader document_path ''single'' False of
           ExceptionObject x \<Rightarrow> failed AttributeError st
         | Loader ld \<Rightarrow>
             (case load backend ld st of
                (Inl e, st1) \<Rightarrow> failed e st1
              | (Inr docs, st1) \<Rightarrow>
                  (let st2 = foldl (set_source_metadata document_path) st1 docs
                   in case load backend ld st2 of
                        (Inl e, st3) \<Rightarrow> failed e st3
                      | (Inr docs', st3) \<Rightarrow> (Docs docs', st3))))"

subsection \<open>\<open>parse_documents_in_dir\<close>\<close>

text \<open>
  \<open>if docs:\<close> is true for a non-empty list and for an exception object (an object
  without \<open>__bool__\<close> and \<open>__len__\<close> is true); \<open>out.extend(docs)\<close> then needs an
  iterable, and raises \<open>TypeError\<close> on an exception object.  That \<open>TypeError\<close> is raised
  outside any \<open>try\<close>, so it leaves \<open>parse_documents_in_dir\<close>.
\<close>

fun walk_loop :: "backend \<Rightarrow> Path list \<Rightarrow> nat list \<Rightarrow> pstate \<Rightarrow> (error + nat list) \<times> pstate" where
  "walk_loop backend [] out st = (Inr out, st)"
| "walk_loop backend (doc # entries) out st =
     (case parse_document backend doc st of
        (Docs docs, st') \<Rightarrow>
          if docs \<noteq> [] then walk_loop backend entries (out @ docs) st'
          else walk_loop backend entries out st'
      | (ExcValue e, st') \<Rightarrow> (Inl TypeError, st'))"

text \<open>
  The entries of the directory are a parameter: \<open>glob dir_path pattern\<close> is what
  \<open>dir_path.glob(pattern)\<close> yields, in its order.
\<close>

definition parse_documents_in_dir ::
  "(Path \<Rightarrow> string \<Rightarrow> Path list) \<Rightarrow> backend \<Rightarrow> Path \<Rightarrow> bool \<Rightarrow> pstate
     \<Rightarrow> (error + parsed) \<times> pstate" where
  "parse_documents_in_dir glob backend dir_path recursive st =
     (case walk_loop backend (glob dir_path (if recursive then ''**/*'' else ''*'')) [] st of
        (Inl e, st') \<Rightarrow> (Inl e, st')
      | (Inr out, st') \<Rightarrow>
          (Inr (if out \<noteq> [] then Docs out else ExcValue (WrongPath (path_str dir_path))), st'))"

text \<open>The documents behind a list of addresses.\<close>

definition deref :: "pstate \<Rightarrow> nat list \<Rightarrow> Document list" where
  "deref st as = map (\<lambda>a. store st ! a) as"

section \<open>The specification of peer normalization\<close>

text \<open>
  What the specification says one entry stands for: an integer stands for itself; a
  string stands for its resolution when that is a positive id, and for nothing
  (\<open>None\<close>) when the resolution fails or is not positive.
\<close>

fun spec_peer_id :: "name_endpoint \<Rightarrow> peer \<Rightarrow> int option" where
  "spec_peer_id vk (IntPeer pid) = Some pid"
| "spec_peer_id vk (StrPeer pid) =
     (case fst (resolve_screen_name vk pid) of
        None \<Rightarrow> None
      | Some resolved \<Rightarrow> if 0 < resolved then Some resolved else None)"

section \<open>Example inputs\<close>

text \<open>
  A name endpoint that is down; a directory \<open>docs\<close> with a Markdown file and a
  text file; a backend that parses any file to one block whose metadata holds the
  path given to the loader, as langchain's loaders set it.
\<close>

definition endpoint_down :: name_endpoint where
  "endpoint_down name = Inl (ApiError ''timeout'')"

definition a_md :: Path where
  "a_md = \<lparr>path_str = ''docs/a.md'', as_posix = ''docs/a.md'', path_name = ''a.md''\<rparr>"

definition b_txt :: Path where
  "b_txt = \<lparr>path_str = ''docs/b.txt'', as_posix = ''docs/b.txt'', path_name = ''b.txt''\<rparr>"

definition docs_dir :: Path where
  "docs_dir = \<lparr>path_str = ''docs'', as_posix = ''docs'', path_name = ''docs''\<rparr>"

definition listing :: "Path \<Rightarrow> string \<Rightarrow> Path list" where
  "listing dir_path pattern = [a_md, b_txt]"

definition one_block :: backend where
  "one_block ld =
     Inr [\<lparr>page_content = PStr ''hello'', metadata = [(''source'', PStr (file_path ld))]\<rparr>]"

definition empty_state :: pstate where
  "empty_state = \<lparr>store = [], printed = []\<rparr>"

section \<open>Properties of the fetch loop\<close>

declare fetch_loop.simps [simp del]

subsection \<open>One iteration\<close>

text \<open>
  The five ways through one iteration of the \<open>while\<close> loop: the condition fails, the
  endpoint raises, the batch is empty, the batch is short, the batch is full.
\<close>

lemma fetch_loop_done:
  "\<not> got < limit \<Longrightarrow> fetch_loop g p limit pc pause items got off = (Inr items, [])"
  by (subst fetch_loop.simps) simp

lemma fetch_loop_raise:
  "got < limit \<Longrightarrow> g p (min pc (limit - got)) off = Inl e \<Longrightarrow>
   fetch_loop g p limit pc pause items got off = (Inl e, [Request p (min pc (limit - got)) off])"
  by (subst fetch_loop.simps) simp

lemma fetch_loop_empty:
  "got < limit \<Longrightarrow> g p (min pc (limit - got)) off = Inr resp \<Longrightarrow> get_items resp = [] \<Longrightarrow>
   fetch_loop g p limit pc pause items got off =
     (Inr items, [Request p (min pc (limit - got)) off, Response []])"
  by (subst fetch_loop.simps) simp

lemma fetch_loop_short:
  "got < limit \<Longrightarrow> g p (min pc (limit - got)) off = Inr resp \<Longrightarrow> get_items resp \<noteq> [] \<Longrightarrow>
   int (length (get_items resp)) < min pc (limit - got) \<Longrightarrow>
   fetch_loop g p limit pc pause items got off =
     (Inr (items @ get_items resp),
      [Request p (min pc (limit - got)) off, Response (get_items resp), Sleep pause])"
  by (subst fetch_loop.simps) (simp add: Let_def)

lemma fetch_loop_full:
  "got < limit \<Longrightarrow> g p (min pc (limit - got)) off = Inr resp \<Longrightarrow> get_items resp \<noteq> [] \<Longrightarrow>
   \<not> int (length (get_items resp)) < min pc (limit - got) \<Longrightarrow>
   fetch_loop g p limit pc pause items got off =
     (fst (fetch_loop g p limit pc pause (items @ get_items resp)
             (got + int (length (get_items resp))) (off + int (length (get_items resp)))),
      Request p (min pc (limit - got)) off # Response (get_items resp) # Sleep pause #
      snd (fetch_loop g p limit pc pause (items @ get_items resp)
             (got + int (length (get_items resp))) (off + int (length (get_items resp)))))"
  by (subst fetch_loop.simps) (auto simp: Let_def split: prod.splits)

lemma fetch_loop_cases:
  obtains (stop) "\<not> got < limit"
  | (raised) e where "got < limit" "g p (min pc (limit - got)) off = Inl e"
  | (empty) resp where "got < limit" "g p (min pc (limit - got)) off = Inr resp"
        "get_items resp = []"
  | (short) resp where "got < limit" "g p (min pc (limit - got)) off = Inr resp"
        "get_items resp \<noteq> []" "int (length (get_items resp)) < min pc (limit - got)"
  | (full) resp where "got < limit" "g p (min pc (limit - got)) off = Inr resp"
        "get_items resp \<noteq> []" "\<not> int (length (get_items resp)) < min pc (limit - got)"
  by (cases "g p (min pc (limit - got)) off") blast+

lemma fetched_nonneg: "0 \<le> fetched evs"
  by (induction evs rule: fetched.induct) simp_all

lemma fetched_append: "fetched (xs @ ys) = fetched xs + fetched ys"
  by (induction xs rule: fetched.induct) simp_all

subsection \<open>The number of requests\<close>

lemma fetch_loop_calls_bound:
  "length (requests (snd (fetch_loop g p limit pc pause items got off))) \<le> nat (limit - got)"
proof (induction g p limit pc pause items got off rule: fetch_loop.induct)
  case (1 g p limit pc pause items got off)
  have one: "Suc 0 \<le> nat (limit - got)" if "got < limit"
    using that by linarith
  show ?case
  proof (cases rule: fetch_loop_cases[where got=got and limit=limit and g=g and p=p
                        and pc=pc and off=off])
    case stop
    then show ?thesis by (simp add: fetch_loop_done)
  next
    case (raised e)
    then show ?thesis by (simp add: fetch_loop_raise one)
  next
    case (empty resp)
    then show ?thesis by (simp add: fetch_loop_empty one)
  next
    case (short resp)
    then show ?thesis using one by (simp add: fetch_loop_short)
  next
    case (full resp)
    let ?n = "int (length (get_items resp))"
    from full(3) have pos: "1 \<le> ?n" by (cases "get_items resp") simp_all
    have IH: "length (requests (snd (fetch_loop g p limit pc pause (items @ get_items resp)
                     (got + ?n) (off + ?n)))) \<le> nat (limit - (got + ?n))"
      using "1.IH"[OF full(1) refl full(2) refl full(3) full(4)] .
    have "length (requests (snd (fetch_loop g p limit pc pause items got off)))
          = Suc (length (requests (snd (fetch_loop g p limit pc pause (items @ get_items resp)
                     (got + ?n) (off + ?n)))))"
      by (simp add: fetch_loop_full[where g=g and p=p, OF full])
    also have "\<dots> \<le> Suc (nat (limit - (got + ?n)))" using IH by simp
    also have "\<dots> \<le> nat (limit - got)" using pos full(1) by linarith
    finally show ?thesis .
  qed
qed

subsection \<open>What each request asks for\<close>

lemma fetch_loop_request_inv:
  "snd (fetch_loop g p limit pc pause items got off) = pre @ Request p' c o' # post \<Longrightarrow>
   p' = p \<and> c = min pc (limit - (got + fetched pre)) \<and> o' = off + fetched pre"
proof (induction g p limit pc pause items got off arbitrary: pre rule: fetch_loop.induct)
  case (1 g p limit pc pause items got off)
  show ?case
  proof (cases rule: fetch_loop_cases[where got=got and limit=limit and g=g and p=p
                        and pc=pc and off=off])
    case stop
    with "1.prems" show ?thesis by (simp add: fetch_loop_done)
  next
    case (raised e)
    with "1.prems" show ?thesis
      by (auto simp: fetch_loop_raise Cons_eq_append_conv)
  next
    case (empty resp)
    with "1.prems" show ?thesis
      by (auto simp: fetch_loop_empty Cons_eq_append_conv)
  next
    case (short resp)
    with "1.prems" show ?thesis
      by (auto simp: fetch_loop_short Cons_eq_append_conv)
  next
    case (full resp)
    let ?b = "get_items resp"
    let ?n = "int (length ?b)"
    let ?rest = "snd (fetch_loop g p limit pc pause (items @ ?b) (got + ?n) (off + ?n))"
    have IH: "?rest = pre' @ Request p' c o' # post \<Longrightarrow>
              p' = p \<and> c = min pc (limit - (got + ?n + fetched pre'))
                \<and> o' = off + ?n + fetched pre'" for pre'
      using "1.IH"[OF full(1) refl full(2) refl full(3) full(4)] .
    have eq: "Request p (min pc (limit - got)) off # Response ?b # Sleep pause # ?rest
              = pre @ Request p' c o' # post"
      using "1.prems" by (simp add: fetch_loop_full[where g=g and p=p, OF full])
    show ?thesis
    proof (cases pre)
      case Nil
      with eq show ?thesis by simp
    next
      case (Cons e1 pre1)
      with eq have e1: "e1 = Request p (min pc (limit - got)) off"
        and eq1: "Response ?b # Sleep pause # ?rest = pre1 @ Request p' c o' # post"
        by simp_all
      from eq1 obtain pre2 where pre1: "pre1 = Response ?b # pre2"
        and eq2: "Sleep pause # ?rest = pre2 @ Request p' c o' # post"
        by (cases pre1) simp_all
      from eq2 obtain pre3 where pre2: "pre2 = Sleep pause # pre3"
        and eq3: "?rest = pre3 @ Request p' c o' # post"
        by (cases pre2) simp_all
      from IH[OF eq3] show ?thesis
        by (simp add: Cons e1 pre1 pre2 algebra_simps)
    qed
  qed
qed

subsection \<open>Pauses\<close>

lemma fetch_loop_response_inv:
  "snd (fetch_loop g p limit pc pause items got off) = pre @ Response b # post \<Longrightarrow>
   (b \<noteq> [] \<longrightarrow> (\<exists>rest. post = Sleep pause # rest)) \<and> (b = [] \<longrightarrow> post = [])"
proof (induction g p limit pc pause items got off arbitrary: pre rule: fetch_loop.induct)
  case (1 g p limit pc pause items got off)
  show ?case
  proof (cases rule: fetch_loop_cases[where got=got and limit=limit and g=g and p=p
                        and pc=pc and off=off])
    case stop
    with "1.prems" show ?thesis by (simp add: fetch_loop_done)
  next
    case (raised e)
    with "1.prems" show ?thesis
      by (auto simp: fetch_loop_raise Cons_eq_append_conv)
  next
    case (empty resp)
    with "1.prems" show ?thesis
      by (auto simp: fetch_loop_empty Cons_eq_append_conv)
  next
    case (short resp)
    with "1.prems" show ?thesis
      by (auto simp: fetch_loop_short Cons_eq_append_conv)
  next
    case (full resp)
    let ?b = "get_items resp"
    let ?n = "int (length ?b)"
    let ?rest = "snd (fetch_loop g p limit pc pause (items @ ?b) (got + ?n) (off + ?n))"
    have IH: "?rest = pre' @ Response b # post \<Longrightarrow>
              (b \<noteq> [] \<longrightarrow> (\<exists>rest. post = Sleep pause # rest)) \<and> (b = [] \<longrightarrow> post = [])"
      for pre'
      using "1.IH"[OF full(1) refl full(2) refl full(3) full(4)] .
    have eq: "Request p (min pc (limit - got)) off # Response ?b # Sleep pause # ?rest
              = pre @ Response b # post"
      using "1.prems" by (simp add: fetch_loop_full[where g=g and p=p, OF full])
    then obtain pre1 where pre: "pre = Request p (min pc (limit - got)) off # pre1"
      and eq1: "Response ?b # Sleep pause # ?rest = pre1 @ Response b # post"
      by (cases pre) simp_all
    show ?thesis
    proof (cases pre1)
      case Nil
      with eq1 full(3) show ?thesis by auto
    next
      case (Cons e2 pre2)
      with eq1 have eq2: "Sleep pause # ?rest = pre2 @ Response b # post" by simp
      then obtain pre3 where "pre2 = Sleep pause # pre3"
        and eq3: "?rest = pre3 @ Response b # post"
        by (cases pre2) simp_all
      from IH[OF eq3] show ?thesis .
    qed
  qed
qed

lemma fetch_loop_pause_between:
  "snd (fetch_loop g p limit pc pause items got off)
     = pre @ Request a1 a2 a3 # mid @ Request b1 b2 b3 # post \<Longrightarrow>
   Sleep pause \<in> set mid"
proof (induction g p limit pc pause items got off arbitrary: pre rule: fetch_loop.induct)
  case (1 g p limit pc pause items got off)
  show ?case
  proof (cases rule: fetch_loop_cases[where got=got and limit=limit and g=g and p=p
                        and pc=pc and off=off])
    case stop
    with "1.prems" show ?thesis by (simp add: fetch_loop_done)
  next
    case (raised e)
    with "1.prems" show ?thesis
      by (auto simp: fetch_loop_raise Cons_eq_append_conv)
  next
    case (empty resp)
    with "1.prems" show ?thesis
      by (auto simp: fetch_loop_empty Cons_eq_append_conv)
  next
    case (short resp)
    with "1.prems" show ?thesis
      by (auto simp: fetch_loop_short Cons_eq_append_conv)
  next
    case (full resp)
    let ?b = "get_items resp"
    let ?n = "int (length ?b)"
    let ?rest = "snd (fetch_loop g p limit pc pause (items @ ?b) (got + ?n) (off + ?n))"
    have IH: "?rest = pre' @ Request a1 a2 a3 # mid @ Request b1 b2 b3 # post \<Longrightarrow>
              Sleep pause \<in> set mid" for pre'
      using "1.IH"[OF full(1) refl full(2) refl full(3) full(4)] .
    have eq: "Request p (min pc (limit - got)) off # Response ?b # Sleep pause # ?rest
              = pre @ Request a1 a2 a3 # mid @ Request b1 b2 b3 # post"
      using "1.prems" by (simp add: fetch_loop_full[where g=g and p=p, OF full])
    show ?thesis
    proof (cases pre)
      case Nil
      with eq have eq1: "Response ?b # Sleep pause # ?rest = mid @ Request b1 b2 b3 # post"
        by auto
      then obtain mid1 where m: "mid = Response ?b # mid1"
        and eq2: "Sleep pause # ?rest = mid1 @ Request b1 b2 b3 # post"
        by (cases mid) simp_all
      from eq2 obtain mid2 where "mid1 = Sleep pause # mid2" by (cases mid1) simp_all
      with m show ?thesis by simp
    next
      case (Cons e1 pre1)
      with eq have eq1: "Response ?b # Sleep pause # ?rest
            = pre1 @ Request a1 a2 a3 # mid @ Request b1 b2 b3 # post" by simp
      then obtain pre2 where "pre1 = Response ?b # pre2"
        and eq2: "Sleep pause # ?rest = pre2 @ Request a1 a2 a3 # mid @ Request b1 b2 b3 # post"
        by (cases pre1) simp_all
      from eq2 obtain pre3 where "pre2 = Sleep pause # pre3"
        and eq3: "?rest = pre3 @ Request a1 a2 a3 # mid @ Request b1 b2 b3 # post"
        by (cases pre2) simp_all
      from IH[OF eq3] show ?thesis .
    qed
  qed
qed

subsection \<open>Exceptions of the endpoint\<close>

lemma fetch_loop_error_last:
  "snd (fetch_loop g p limit pc pause items got off) = pre @ Request p' c o' # post \<Longrightarrow>
   g p' c o' = Inl e \<Longrightarrow>
   fst (fetch_loop g p limit pc pause items got off) = Inl e \<and> post = []"
proof (induction g p limit pc pause items got off arbitrary: pre rule: fetch_loop.induct)
  case (1 g p limit pc pause items got off)
  note prems = "1.prems"
  show ?case
  proof (cases rule: fetch_loop_cases[where got=got and limit=limit and g=g and p=p
                        and pc=pc and off=off])
    case stop
    with prems show ?thesis by (simp add: fetch_loop_done)
  next
    case (raised e')
    with prems show ?thesis
      by (auto simp: fetch_loop_raise Cons_eq_append_conv)
  next
    case (empty resp)
    with prems show ?thesis
      by (auto simp: fetch_loop_empty Cons_eq_append_conv)
  next
    case (short resp)
    with prems show ?thesis
      by (auto simp: fetch_loop_short Cons_eq_append_conv)
  next
    case (full resp)
    let ?b = "get_items resp"
    let ?n = "int (length ?b)"
    let ?rec = "fetch_loop g p limit pc pause (items @ ?b) (got + ?n) (off + ?n)"
    have IH: "snd ?rec = pre' @ Request p' c o' # post \<Longrightarrow> fst ?rec = Inl e \<and> post = []"
      for pre'
      using "1.IH"[OF full(1) refl full(2) refl full(3) full(4) _ prems(2)] .
    have unf: "fetch_loop g p limit pc pause items got off
          = (fst ?rec, Request p (min pc (limit - got)) off # Response ?b # Sleep pause # snd ?rec)"
      by (rule fetch_loop_full[where g=g and p=p, OF full])
    have eq: "Request p (min pc (limit - got)) off # Response ?b # Sleep pause # snd ?rec
              = pre @ Request p' c o' # post"
      using prems(1) by (simp add: unf)
    show ?thesis
    proof (cases pre)
      case Nil
      with eq full(2) prems(2) show ?thesis by simp
    next
      case (Cons e1 pre1)
      with eq have eq1: "Response ?b # Sleep pause # snd ?rec = pre1 @ Request p' c o' # post"
        by simp
      then obtain pre2 where "pre1 = Response ?b # pre2"
        and eq2: "Sleep pause # snd ?rec = pre2 @ Request p' c o' # post"
        by (cases pre1) simp_all
      from eq2 obtain pre3 where "pre2 = Sleep pause # pre3"
        and eq3: "snd ?rec = pre3 @ Request p' c o' # post"
        by (cases pre2) simp_all
      from IH[OF eq3] show ?thesis by (simp add: unf)
    qed
  qed
qed

lemma fetch_loop_error_origin:
  "fst (fetch_loop g p limit pc pause items got off) = Inl e \<Longrightarrow>
   \<exists>pre c o'. snd (fetch_loop g p limit pc pause items got off) = pre @ [Request p c o']
              \<and> g p c o' = Inl e"
proof (induction g p limit pc pause items got off rule: fetch_loop.induct)
  case (1 g p limit pc pause items got off)
  note prems = "1.prems"
  show ?case
  proof (cases rule: fetch_loop_cases[where got=got and limit=limit and g=g and p=p
                        and pc=pc and off=off])
    case stop
    with prems show ?thesis by (simp add: fetch_loop_done)
  next
    case (raised e')
    with prems show ?thesis by (simp add: fetch_loop_raise)
  next
    case (empty resp)
    with prems show ?thesis by (simp add: fetch_loop_empty)
  next
    case (short resp)
    with prems show ?thesis by (simp add: fetch_loop_short)
  next
    case (full resp)
    let ?b = "get_items resp"
    let ?n = "int (length ?b)"
    let ?rec = "fetch_loop g p limit pc pause (items @ ?b) (got + ?n) (off + ?n)"
    have unf: "fetch_loop g p limit pc pause items got off
          = (fst ?rec, Request p (min pc (limit - got)) off # Response ?b # Sleep pause # snd ?rec)"
      by (rule fetch_loop_full[where g=g and p=p, OF full])
    from prems have "fst ?rec = Inl e" by (simp add: unf)
    from "1.IH"[OF full(1) refl full(2) refl full(3) full(4) this]
    obtain pre c o' where "snd ?rec = pre @ [Request p c o']" and g: "g p c o' = Inl e"
      by blast
    then have "snd (fetch_loop g p limit pc pause items got off)
        = (Request p (min pc (limit - got)) off # Response ?b # Sleep pause # pre)
            @ [Request p c o']"
      by (simp add: unf)
    with g show ?thesis by blast
  qed
qed

subsection \<open>A limit of 450\<close>

lemma fetch_450_full:
  assumes "g p 200 0 = Inr r1" "length (get_items r1) = 200"
      "g p 200 200 = Inr r2" "length (get_items r2) = 200"
      "g p 50 400 = Inr r3" "length (get_items r3) = 50"
  shows "fetch_history g p 450 pause =
     (Inr (get_items r1 @ get_items r2 @ get_items r3),
      [Request p 200 0, Response (get_items r1), Sleep pause,
       Request p 200 200, Response (get_items r2), Sleep pause,
       Request p 50 400, Response (get_items r3), Sleep pause])"
proof -
  have ne: "get_items r1 \<noteq> []" "get_items r2 \<noteq> []" "get_items r3 \<noteq> []"
    using assms by auto
  have s4: "fetch_loop g p 450 200 pause (get_items r1 @ get_items r2 @ get_items r3) 450 450
       = (Inr (get_items r1 @ get_items r2 @ get_items r3), [])"
    by (simp add: fetch_loop_done)
  have s3: "fetch_loop g p 450 200 pause (get_items r1 @ get_items r2) 400 400
       = (Inr (get_items r1 @ get_items r2 @ get_items r3),
          [Request p 50 400, Response (get_items r3), Sleep pause])"
    using fetch_loop_full[where g=g and p=p and limit=450 and pc=200 and got=400 and off=400
         and resp=r3 and pause=pause and items="get_items r1 @ get_items r2"] assms ne s4
    by simp
  have s2: "fetch_loop g p 450 200 pause (get_items r1) 200 200
       = (Inr (get_items r1 @ get_items r2 @ get_items r3),
          [Request p 200 200, Response (get_items r2), Sleep pause,
           Request p 50 400, Response (get_items r3), Sleep pause])"
    using fetch_loop_full[where g=g and p=p and limit=450 and pc=200 and got=200 and off=200
         and resp=r2 and pause=pause and items="get_items r1"] assms ne s3
    by simp
  show ?thesis
    using fetch_loop_full[where g=g and p=p and limit=450 and pc=200 and got=0 and off=0
         and resp=r1 and pause=pause and items="[]"] assms ne s2
    by (simp add: fetch_history_def)
qed

lemma fetch_450_short:
  assumes "g p 200 0 = Inr r1" "length (get_items r1) = 200"
      "g p 200 200 = Inr r2" "length (get_items r2) < 200"
  shows "requests (snd (fetch_history g p 450 pause)) = [(p, 200, 0), (p, 200, 200)]"
proof -
  have ne: "get_items r1 \<noteq> []" using assms by auto
  have s2: "requests (snd (fetch_loop g p 450 200 pause (get_items r1) 200 200))
       = [(p, 200, 200)]"
  proof (cases "get_items r2 = []")
    case True
    with assms show ?thesis
      using fetch_loop_empty[where g=g and p=p and limit=450 and pc=200 and got=200 and off=200
         and resp=r2 and pause=pause and items="get_items r1"] by simp
  next
    case False
    with assms show ?thesis
      using fetch_loop_short[where g=g and p=p and limit=450 and pc=200 and got=200 and off=200
         and resp=r2 and pause=pause and items="get_items r1"] by simp
  qed
  show ?thesis
    using fetch_loop_full[where g=g and p=p and limit=450 and pc=200 and got=0 and off=0
         and resp=r1 and pause=pause and items="[]"] assms ne s2
    by (simp add: fetch_history_def)
qed

section \<open>Claims about \<open>_fetch_history\<close>\<close>

text \<open>
  C4.  With a limit of 450 (the page size is the constant 200 of the code), when the
  three calls return full batches the requests are exactly \<open>(200, 0)\<close>,
  \<open>(200, 200)\<close> and \<open>(50, 400)\<close>; when the first batch is full and the second has
  fewer than 200 messages there are exactly two requests.  For every limit and every
  endpoint, each request asks for \<open>min(200, limit - fetched)\<close> messages at offset
  \<open>fetched\<close>, where \<open>fetched\<close> counts the messages received before that request.
\<close>

theorem fetch_history_pagination:
  "(getHistory peer_id 200 0 = Inr r1 \<and> length (get_items r1) = 200 \<and>
    getHistory peer_id 200 200 = Inr r2 \<and> length (get_items r2) = 200 \<and>
    getHistory peer_id 50 400 = Inr r3 \<and> length (get_items r3) = 50 \<longrightarrow>
      requests (snd (fetch_history getHistory peer_id 450 pause))
        = [(peer_id, 200, 0), (peer_id, 200, 200), (peer_id, 50, 400)])
   \<and> (getHistory peer_id 200 0 = Inr r1 \<and> length (get_items r1) = 200 \<and>
      getHistory peer_id 200 200 = Inr r2' \<and> length (get_items r2') < 200 \<longrightarrow>
      requests (snd (fetch_history getHistory peer_id 450 pause))
        = [(peer_id, 200, 0), (peer_id, 200, 200)])
   \<and> (\<forall>pre p c off post.
        snd (fetch_history getHistory peer_id limit pause) = pre @ Request p c off # post \<longrightarrow>
        c = min 200 (limit - fetched pre) \<and> off = fetched pre)"
proof (intro conjI impI allI)
  assume "getHistory peer_id 200 0 = Inr r1 \<and> length (get_items r1) = 200 \<and>
    getHistory peer_id 200 200 = Inr r2 \<and> length (get_items r2) = 200 \<and>
    getHistory peer_id 50 400 = Inr r3 \<and> length (get_items r3) = 50"
  then show "requests (snd (fetch_history getHistory peer_id 450 pause))
        = [(peer_id, 200, 0), (peer_id, 200, 200), (peer_id, 50, 400)]"
    by (simp add: fetch_450_full[where ?r1.0=r1 and ?r2.0=r2 and ?r3.0=r3])
next
  assume "getHistory peer_id 200 0 = Inr r1 \<and> length (get_items r1) = 200 \<and>
      getHistory peer_id 200 200 = Inr r2' \<and> length (get_items r2') < 200"
  then show "requests (snd (fetch_history getHistory peer_id 450 pause))
        = [(peer_id, 200, 0), (peer_id, 200, 200)]"
    by (simp add: fetch_450_short[where ?r1.0=r1 and ?r2.0=r2'])
next
  fix pre p c off post
  assume "snd (fetch_history getHistory peer_id limit pause) = pre @ Request p c off # post"
  then have inv: "c = min (if limit > 200 then 200 else limit) (limit - (0 + fetched pre))"
    "off = 0 + fetched pre"
    unfolding fetch_history_def by (auto dest: fetch_loop_request_inv)
  from inv(1) fetched_nonneg[of pre] show "c = min 200 (limit - fetched pre)"
    by (simp split: if_splits)
  from inv(2) show "off = fetched pre" by simp
qed

theorem fetch_history_pagination_witness:
  "requests (snd (fetch_history
       (\<lambda>p c off. Inr \<lparr>reply_items = Some (replicate (nat c) [])\<rparr>) 7 450 0.34))
     = [(7, 200, 0), (7, 200, 200), (7, 50, 400)]
   \<and> requests (snd (fetch_history
       (\<lambda>p c off. Inr \<lparr>reply_items = Some (replicate (if off = 0 then 200 else 30) [])\<rparr>)
       7 450 0.34))
     = [(7, 200, 0), (7, 200, 200)]
   \<and> snd (fetch_history (\<lambda>p c off. Inr \<lparr>reply_items = Some (replicate (nat c) [])\<rparr>) 7 2 0.34)
       = [] @ Request 7 2 0 # [Response [[], []], Sleep 0.34]
   \<and> (2::int) = min 200 (2 - fetched []) \<and> (0::int) = fetched []"
proof -
  let ?full = "\<lambda>(p::int) (c::int) (off::int).
      Inr \<lparr>reply_items = Some (replicate (nat c) ([]::vk_message))\<rparr> :: error + history_reply"
  let ?short = "\<lambda>(p::int) (c::int) (off::int).
      Inr \<lparr>reply_items = Some (replicate (if off = 0 then 200 else 30) ([]::vk_message))\<rparr>
        :: error + history_reply"
  have tr: "snd (fetch_history ?full 7 2 0.34)
       = [] @ Request 7 2 0 # [Response [[], []], Sleep 0.34]"
    by (simp add: fetch_history_def fetch_loop.simps get_items_def numeral_2_eq_2 Let_def)
  have a: "requests (snd (fetch_history ?full 7 450 0.34))
      = [(7, 200, 0), (7, 200, 200), (7, 50, 400)]"
    using fetch_history_pagination[where getHistory="?full" and peer_id=7 and pause="0.34"
        and ?r1.0="\<lparr>reply_items = Some (replicate 200 [])\<rparr>"
        and ?r2.0="\<lparr>reply_items = Some (replicate 200 [])\<rparr>"
        and ?r3.0="\<lparr>reply_items = Some (replicate 50 [])\<rparr>"]
    by (simp add: get_items_def)
  have b: "requests (snd (fetch_history ?short 7 450 0.34)) = [(7, 200, 0), (7, 200, 200)]"
    using fetch_history_pagination[where getHistory="?short" and peer_id=7 and pause="0.34"
        and ?r1.0="\<lparr>reply_items = Some (replicate 200 [])\<rparr>"
        and ?r2'="\<lparr>reply_items = Some (replicate 30 [])\<rparr>"]
    by (simp add: get_items_def)
  have c: "(2::int) = min 200 (2 - fetched []) \<and> (0::int) = fetched []"
    using fetch_history_pagination[where getHistory="?full" and peer_id=7 and pause="0.34"
        and limit=2] tr
    by blast
  from a b c tr show ?thesis by blast
qed

text \<open>
  C7.  \<open>fetch_history\<close> is a total function: the loop is defined with a measure,
  \<open>limit - got\<close>, that every iteration which does not break decreases.  It sends at
  most \<open>max(limit, 0)\<close> requests; every batch that is not the last event of the trace
  raises the number of fetched messages by at least one; and for \<open>limit \<le> 0\<close> it
  returns the empty list without any request.
\<close>

theorem fetch_history_bounded:
  "length (requests (snd (fetch_history getHistory peer_id limit pause))) \<le> nat (max limit 0)
   \<and> (\<forall>pre b post.
        snd (fetch_history getHistory peer_id limit pause) = pre @ Response b # post
          \<and> post \<noteq> [] \<longrightarrow>
        fetched pre + 1 \<le> fetched (pre @ [Response b]))
   \<and> (limit \<le> 0 \<longrightarrow> fetch_history getHistory peer_id limit pause = (Inr [], []))"
proof (intro conjI impI allI)
  have "length (requests (snd (fetch_history getHistory peer_id limit pause)))
      \<le> nat (limit - 0)"
    unfolding fetch_history_def by (rule fetch_loop_calls_bound)
  also have "\<dots> \<le> nat (max limit 0)" by simp
  finally show "length (requests (snd (fetch_history getHistory peer_id limit pause)))
      \<le> nat (max limit 0)" .
next
  fix pre b post
  assume a: "snd (fetch_history getHistory peer_id limit pause) = pre @ Response b # post
      \<and> post \<noteq> []"
  then have "b = [] \<longrightarrow> post = []"
    unfolding fetch_history_def by (auto dest: fetch_loop_response_inv)
  with a have "b \<noteq> []" by blast
  then have "1 \<le> int (length b)" by (cases b) simp_all
  then show "fetched pre + 1 \<le> fetched (pre @ [Response b])"
    by (simp add: fetched_append)
next
  assume "limit \<le> 0"
  then show "fetch_history getHistory peer_id limit pause = (Inr [], [])"
    by (simp add: fetch_history_def fetch_loop_done)
qed

theorem fetch_history_bounded_witness:
  "fetch_history (\<lambda>p c off. Inr \<lparr>reply_items = Some (replicate (nat c) [])\<rparr>) 7 0 0.34
     = (Inr [], [])
   \<and> fetch_history (\<lambda>p c off. Inl (ApiError ''down'')) 7 (- 3) 0.34 = (Inr [], [])
   \<and> snd (fetch_history (\<lambda>p c off. Inr \<lparr>reply_items = Some (replicate (nat c) [])\<rparr>) 7 2 0.34)
       = [Request 7 2 0] @ Response [[], []] # [Sleep 0.34]
   \<and> fetched [Request 7 2 0] + 1 \<le> fetched ([Request 7 2 0] @ [Response [[], []]])
   \<and> length (requests (snd (fetch_history
         (\<lambda>p c off. Inr \<lparr>reply_items = Some (replicate (nat c) [])\<rparr>) 7 2 0.34))) \<le> 2"
proof -
  let ?full = "\<lambda>(p::int) (c::int) (off::int).
      Inr \<lparr>reply_items = Some (replicate (nat c) ([]::vk_message))\<rparr> :: error + history_reply"
  let ?down = "\<lambda>(p::int) (c::int) (off::int). Inl (ApiError ''down'') :: error + history_reply"
  have tr: "snd (fetch_history ?full 7 2 0.34)
       = [Request 7 2 0] @ Response [[], []] # [Sleep 0.34]"
    by (simp add: fetch_history_def fetch_loop.simps get_items_def numeral_2_eq_2 Let_def)
  have a: "fetch_history ?full 7 0 0.34 = (Inr [], [])"
    using fetch_history_bounded[where getHistory="?full" and peer_id=7 and limit=0
        and pause="0.34"]
    by simp
  have b: "fetch_history ?down 7 (- 3) 0.34 = (Inr [], [])"
    using fetch_history_bounded[where getHistory="?down" and peer_id=7 and limit="- 3"
        and pause="0.34"]
    by simp
  have c: "fetched [Request 7 2 0] + 1 \<le> fetched ([Request 7 2 0] @ [Response [[], []]])"
    using fetch_history_bounded[where getHistory="?full" and peer_id=7 and limit=2
        and pause="0.34"] tr
    by blast
  have d: "length (requests (snd (fetch_history ?full 7 2 0.34))) \<le> 2"
    using fetch_history_bounded[where getHistory="?full" and peer_id=7 and limit=2
        and pause="0.34"]
    by simp
  from a b c d tr show ?thesis by blast
qed

text \<open>
  C8.  In the trace of \<open>fetch_history\<close>, every non-empty batch is followed at once by
  a sleep of \<open>pause\<close>, the last, short batch included; an empty batch is the last
  event, with no sleep after it; and between any two requests there is a sleep of
  \<open>pause\<close>.
\<close>

theorem fetch_history_paced:
  "(\<forall>pre b post.
      snd (fetch_history getHistory peer_id limit pause) = pre @ Response b # post \<longrightarrow>
      (b \<noteq> [] \<longrightarrow> (\<exists>rest. post = Sleep pause # rest)) \<and> (b = [] \<longrightarrow> post = []))
   \<and> (\<forall>pre p c off mid p' c' off' post.
        snd (fetch_history getHistory peer_id limit pause)
          = pre @ Request p c off # mid @ Request p' c' off' # post \<longrightarrow>
        Sleep pause \<in> set mid)"
  unfolding fetch_history_def
  by (blast dest: fetch_loop_response_inv fetch_loop_pause_between)

theorem fetch_history_paced_witness:
  "snd (fetch_history (\<lambda>p c off. Inr \<lparr>reply_items = Some [[], []]\<rparr>) 7 5 0.34)
     = [Request 7 5 0] @ Response [[], []] # [Sleep 0.34]
   \<and> (\<exists>rest. [Sleep 0.34] = Sleep 0.34 # rest)
   \<and> snd (fetch_history (\<lambda>p c off. Inr \<lparr>reply_items = None\<rparr>) 7 5 0.34)
     = [Request 7 5 0] @ Response [] # []
   \<and> snd (fetch_history (\<lambda>p c off. Inr \<lparr>reply_items = Some (replicate (nat c) [])\<rparr>) 7 201 0.34)
     = [] @ Request 7 200 0 # [Response (replicate 200 []), Sleep 0.34]
          @ Request 7 1 200 # [Response [[]], Sleep 0.34]
   \<and> Sleep 0.34 \<in> set [Response (replicate 200 []), Sleep 0.34]"
proof -
  let ?two = "\<lambda>(p::int) (c::int) (off::int).
      Inr \<lparr>reply_items = Some [[], []::vk_message]\<rparr> :: error + history_reply"
  let ?none = "\<lambda>(p::int) (c::int) (off::int).
      Inr \<lparr>reply_items = None\<rparr> :: error + history_reply"
  let ?full = "\<lambda>(p::int) (c::int) (off::int).
      Inr \<lparr>reply_items = Some (replicate (nat c) ([]::vk_message))\<rparr> :: error + history_reply"
  have t1: "snd (fetch_history ?two 7 5 0.34)
      = [Request 7 5 0] @ Response [[], []] # [Sleep 0.34]"
    by (simp add: fetch_history_def fetch_loop.simps get_items_def Let_def)
  have t2: "snd (fetch_history ?none 7 5 0.34) = [Request 7 5 0] @ Response [] # []"
    by (simp add: fetch_history_def fetch_loop.simps get_items_def Let_def)
  have t3: "snd (fetch_history ?full 7 201 0.34)
     = [] @ Request 7 200 0 # [Response (replicate 200 []), Sleep 0.34]
          @ Request 7 1 200 # [Response [[]], Sleep 0.34]"
    by (simp add: fetch_history_def fetch_loop.simps get_items_def Let_def)
  have a: "\<exists>rest. [Sleep 0.34] = Sleep 0.34 # rest"
    using fetch_history_paced[where getHistory="?two" and peer_id=7 and limit=5
        and pause="0.34"] t1
    by blast
  have b: "([]::event list) = []"
    using fetch_history_paced[where getHistory="?none" and peer_id=7 and limit=5
        and pause="0.34"] t2
    by blast
  have c: "Sleep 0.34 \<in> set [Response (replicate 200 []), Sleep 0.34]"
    using fetch_history_paced[where getHistory="?full" and peer_id=7 and limit=201
        and pause="0.34"] t3
    by blast
  from t1 t2 t3 a b c show ?thesis by blast
qed

section \<open>Claims about peer normalization and remote errors\<close>

lemma resolve_screen_name_sent:
  "snd (resolve_screen_name vk pid) = [screen_name_of pid]"
  by (simp add: resolve_screen_name_def Let_def)

lemma resolve_screen_name_endpoint_error:
  "vk (screen_name_of pid) = Inl e \<Longrightarrow> fst (resolve_screen_name vk pid) = None"
  by (simp add: resolve_screen_name_def Let_def)

lemma normalize_loop_str:
  "normalize_loop vk (StrPeer pid # ps) acc =
     (case fst (resolve_screen_name vk pid) of
        None \<Rightarrow> (Inl (PeerNotRecognised pid), [screen_name_of pid])
      | Some r \<Rightarrow>
          if 0 < r then
            (fst (normalize_loop vk ps (acc @ [r])),
             screen_name_of pid # snd (normalize_loop vk ps (acc @ [r])))
          else (Inl (PeerIsCommunity pid), [screen_name_of pid]))"
proof -
  obtain r sent where rs: "resolve_screen_name vk pid = (r, sent)"
    by (cases "resolve_screen_name vk pid")
  with resolve_screen_name_sent[of vk pid] have sent: "sent = [screen_name_of pid]" by simp
  show ?thesis
    by (cases r) (simp_all add: rs sent split: prod.splits)
qed

declare normalize_loop.simps(3) [simp del]


lemma normalize_loop_good_prefix:
  "\<forall>p\<in>set good. spec_peer_id vk p \<noteq> None \<Longrightarrow>
   \<exists>acc'. fst (normalize_loop vk (good @ ps) acc) = fst (normalize_loop vk ps acc')"
proof (induction good arbitrary: acc)
  case Nil
  then show ?case by auto
next
  case (Cons p good)
  then obtain i where i: "spec_peer_id vk p = Some i" by auto
  from Cons.prems have rest: "\<forall>p\<in>set good. spec_peer_id vk p \<noteq> None" by simp
  have "fst (normalize_loop vk ((p # good) @ ps) acc)
      = fst (normalize_loop vk (good @ ps) (acc @ [i]))"
    using i by (cases p) (auto simp: normalize_loop_str split: option.splits if_splits)
  with Cons.IH[OF rest, of "acc @ [i]"] show ?case by auto
qed

lemma normalize_loop_first_failure:
  assumes "\<forall>p\<in>set good. spec_peer_id vk p \<noteq> None"
  shows "fst (resolve_screen_name vk s) = None \<Longrightarrow>
           fst (normalize_loop vk (good @ StrPeer s # rest) acc) = Inl (PeerNotRecognised s)"
    and "fst (resolve_screen_name vk s) = Some r \<Longrightarrow> r \<le> 0 \<Longrightarrow>
           fst (normalize_loop vk (good @ StrPeer s # rest) acc) = Inl (PeerIsCommunity s)"
proof -
  from normalize_loop_good_prefix[OF assms, of "StrPeer s # rest" acc]
  obtain acc' where eq: "fst (normalize_loop vk (good @ StrPeer s # rest) acc)
      = fst (normalize_loop vk (StrPeer s # rest) acc')" by blast
  show "fst (resolve_screen_name vk s) = None \<Longrightarrow>
           fst (normalize_loop vk (good @ StrPeer s # rest) acc) = Inl (PeerNotRecognised s)"
    by (simp add: eq normalize_loop_str)
  show "fst (resolve_screen_name vk s) = Some r \<Longrightarrow> r \<le> 0 \<Longrightarrow>
           fst (normalize_loop vk (good @ StrPeer s # rest) acc) = Inl (PeerIsCommunity s)"
    by (simp add: eq normalize_loop_str)
qed

lemma normalize_loop_ints: "normalize_loop vk (map IntPeer xs) acc = (Inr (acc @ xs), [])"
  by (induction xs arbitrary: acc) simp_all

lemma normalize_loop_ints_then:
  "normalize_loop vk (map IntPeer xs @ ps) acc = normalize_loop vk ps (acc @ xs)"
  by (induction xs arbitrary: acc) simp_all

text \<open>
  A request to the name endpoint that raises is the last one of the normalization,
  which ends with the error that carries the string it was made for.
\<close>

lemma normalize_loop_error_last:
  "snd (normalize_loop vk ps acc) = pre @ n # post \<Longrightarrow> vk n = Inl e \<Longrightarrow>
   post = [] \<and> (\<exists>pid. StrPeer pid \<in> set ps \<and> screen_name_of pid = n
                 \<and> fst (normalize_loop vk ps acc) = Inl (PeerNotRecognised pid))"
proof (induction ps arbitrary: acc pre)
  case Nil
  then show ?case by simp
next
  case (Cons p ps)
  show ?case
  proof (cases p)
    case (IntPeer j)
    with Cons.prems have "snd (normalize_loop vk ps (acc @ [j])) = pre @ n # post" by simp
    from Cons.IH[OF this Cons.prems(2)] IntPeer show ?thesis by auto
  next
    case (StrPeer s)
    show ?thesis
    proof (cases "fst (resolve_screen_name vk s)")
      case None
      with StrPeer Cons.prems(1) have "[screen_name_of s] = pre @ n # post"
        by (simp add: normalize_loop_str)
      then have "pre = []" "n = screen_name_of s" "post = []"
        by (auto simp: Cons_eq_append_conv)
      with None StrPeer show ?thesis by (auto simp: normalize_loop_str)
    next
      case (Some r)
      have ok: "n \<noteq> screen_name_of s"
      proof
        assume "n = screen_name_of s"
        with Cons.prems(2) have "fst (resolve_screen_name vk s) = None"
          by (simp add: resolve_screen_name_endpoint_error)
        with Some show False by simp
      qed
      show ?thesis
      proof (cases "0 < r")
        case False
        with Some StrPeer Cons.prems(1) have "[screen_name_of s] = pre @ n # post"
          by (simp add: normalize_loop_str)
        with ok show ?thesis by (auto simp: Cons_eq_append_conv)
      next
        case True
        with Some StrPeer Cons.prems(1)
        have eq: "screen_name_of s # snd (normalize_loop vk ps (acc @ [r])) = pre @ n # post"
          by (simp add: normalize_loop_str)
        with ok obtain pre' where "pre = screen_name_of s # pre'"
          and eq': "snd (normalize_loop vk ps (acc @ [r])) = pre' @ n # post"
          by (cases pre) auto
        from Cons.IH[OF eq' Cons.prems(2)] True Some StrPeer show ?thesis
          by (auto simp: normalize_loop_str)
      qed
    qed
  qed
qed



text \<open>
  C10.  A list of integers is returned as it is, whatever the integers and whatever
  the endpoint, and nothing is sent to the endpoint.  A string that the endpoint
  resolves to the community \<open>g\<close> resolves to \<open>- g\<close> and is rejected with
  \<open>PeerIsCommunity\<close>, while the integer \<open>- g\<close> in the same place is accepted.
\<close>

theorem normalize_peer_ids_integers:
  "normalize_peer_ids vk (map IntPeer xs) = (Inr xs, [])
   \<and> (vk (screen_name_of pid) = Inr (NameReply (Some ''group'') (Some g)) \<and> 0 < g \<longrightarrow>
        fst (resolve_screen_name vk pid) = Some (- g)
        \<and> fst (normalize_peer_ids vk (map IntPeer xs @ [StrPeer pid]))
            = Inl (PeerIsCommunity pid)
        \<and> fst (normalize_peer_ids vk (map IntPeer xs @ [IntPeer (- g)])) = Inr (xs @ [- g]))"
proof (intro conjI impI)
  show "normalize_peer_ids vk (map IntPeer xs) = (Inr xs, [])"
    by (simp add: normalize_peer_ids_def normalize_loop_ints)
next
  assume a: "vk (screen_name_of pid) = Inr (NameReply (Some ''group'') (Some g)) \<and> 0 < g"
  then show r: "fst (resolve_screen_name vk pid) = Some (- g)"
    by (simp add: resolve_screen_name_def Let_def)
  with a show "fst (normalize_peer_ids vk (map IntPeer xs @ [StrPeer pid]))
      = Inl (PeerIsCommunity pid)"
    by (simp add: normalize_peer_ids_def normalize_loop_ints_then normalize_loop_str)
  show "fst (normalize_peer_ids vk (map IntPeer xs @ [IntPeer (- g)])) = Inr (xs @ [- g])"
    by (simp add: normalize_peer_ids_def normalize_loop_ints_then)
qed

theorem normalize_peer_ids_integers_witness:
  "normalize_peer_ids endpoint_down (map IntPeer [123, 0, - 5]) = (Inr [123, 0, - 5], [])
   \<and> fst (resolve_screen_name (\<lambda>n. Inr (NameReply (Some ''group'') (Some 9))) ''club'')
       = Some (- 9)
   \<and> fst (normalize_peer_ids (\<lambda>n. Inr (NameReply (Some ''group'') (Some 9)))
        (map IntPeer [123] @ [StrPeer ''club''])) = Inl (PeerIsCommunity ''club'')
   \<and> fst (normalize_peer_ids (\<lambda>n. Inr (NameReply (Some ''group'') (Some 9)))
        (map IntPeer [123] @ [IntPeer (- 9)])) = Inr ([123] @ [- 9])"
proof -
  let ?vk = "\<lambda>n::string. Inr (NameReply (Some ''group'') (Some 9)) :: error + name_reply"
  have a: "normalize_peer_ids endpoint_down (map IntPeer [123, 0, - 5])
      = (Inr [123, 0, - 5], [])"
    using normalize_peer_ids_integers[where vk=endpoint_down and xs="[123, 0, - 5]",
        THEN conjunct1] .
  have b: "fst (resolve_screen_name ?vk ''club'') = Some (- 9)
      \<and> fst (normalize_peer_ids ?vk (map IntPeer [123] @ [StrPeer ''club'']))
          = Inl (PeerIsCommunity ''club'')
      \<and> fst (normalize_peer_ids ?vk (map IntPeer [123] @ [IntPeer (- 9)]))
          = Inr ([123] @ [- 9])"
    using normalize_peer_ids_integers[where vk="?vk" and xs="[123]" and pid="''club''" and g=9,
        THEN conjunct2]
    by simp
  from a b show ?thesis by blast
qed

text \<open>
  C6, as the code has it.  An exception of the history endpoint is not caught: the
  fetch ends with that exception, and the request that raised is the last event of
  the trace, so nothing is sent again; conversely an exception that leaves the fetch
  was raised by its last request.  An exception of the name endpoint is caught inside
  \<open>_resolve_screen_name\<close>, which sends that one request and returns \<open>None\<close>;
  \<open>_normalize_peer_ids\<close> then raises its own \<open>ValueError\<close>, which carries the input
  string and not the exception of the endpoint, whatever accepted entries come
  before; and a name request that raised is the last request of the normalization,
  so nothing is sent again.
\<close>

theorem remote_errors:
  "(\<forall>pre p c off post e.
      snd (fetch_history getHistory peer_id limit pause) = pre @ Request p c off # post
        \<and> getHistory p c off = Inl e \<longrightarrow>
      fst (fetch_history getHistory peer_id limit pause) = Inl e \<and> post = [])
   \<and> (\<forall>e. fst (fetch_history getHistory peer_id limit pause) = Inl e \<longrightarrow>
        (\<exists>pre c off. snd (fetch_history getHistory peer_id limit pause)
                        = pre @ [Request peer_id c off]
                      \<and> getHistory peer_id c off = Inl e))
   \<and> (\<forall>e. vk (screen_name_of pid) = Inl e \<longrightarrow>
        resolve_screen_name vk pid = (None, [screen_name_of pid]))
   \<and> (\<forall>e. (\<forall>p\<in>set good. spec_peer_id vk p \<noteq> None) \<and> vk (screen_name_of pid) = Inl e \<longrightarrow>
        fst (normalize_peer_ids vk (good @ StrPeer pid # rest)) = Inl (PeerNotRecognised pid))
   \<and> (\<forall>pre n post e.
        snd (normalize_peer_ids vk peer_ids) = pre @ n # post \<and> vk n = Inl e \<longrightarrow>
        post = []
        \<and> (\<exists>s. StrPeer s \<in> set peer_ids \<and> screen_name_of s = n
               \<and> fst (normalize_peer_ids vk peer_ids) = Inl (PeerNotRecognised s)))"
proof (intro conjI allI impI)
  fix pre p c off post e
  assume a: "snd (fetch_history getHistory peer_id limit pause) = pre @ Request p c off # post
        \<and> getHistory p c off = Inl e"
  then have "fst (fetch_history getHistory peer_id limit pause) = Inl e \<and> post = []"
    unfolding fetch_history_def by (blast dest: fetch_loop_error_last)
  then show "fst (fetch_history getHistory peer_id limit pause) = Inl e" and "post = []"
    by simp_all
next
  fix e
  assume "fst (fetch_history getHistory peer_id limit pause) = Inl e"
  then show "\<exists>pre c off. snd (fetch_history getHistory peer_id limit pause)
                        = pre @ [Request peer_id c off]
                      \<and> getHistory peer_id c off = Inl e"
    unfolding fetch_history_def by (rule fetch_loop_error_origin)
next
  fix e
  assume e: "vk (screen_name_of pid) = Inl e"
  then show "resolve_screen_name vk pid = (None, [screen_name_of pid])"
    by (simp add: resolve_screen_name_def Let_def)
next
  fix e
  assume a: "(\<forall>p\<in>set good. spec_peer_id vk p \<noteq> None) \<and> vk (screen_name_of pid) = Inl e"
  then have "fst (resolve_screen_name vk pid) = None"
    by (simp add: resolve_screen_name_endpoint_error)
  with a show "fst (normalize_peer_ids vk (good @ StrPeer pid # rest))
      = Inl (PeerNotRecognised pid)"
    by (simp add: normalize_peer_ids_def normalize_loop_first_failure)
next
  fix pre n post e
  assume a: "snd (normalize_peer_ids vk peer_ids) = pre @ n # post \<and> vk n = Inl e"
  then have r: "post = [] \<and> (\<exists>s. StrPeer s \<in> set peer_ids \<and> screen_name_of s = n
               \<and> fst (normalize_peer_ids vk peer_ids) = Inl (PeerNotRecognised s))"
    unfolding normalize_peer_ids_def by (blast dest: normalize_loop_error_last)
  from r show "post = []" by simp
  from r show "\<exists>s. StrPeer s \<in> set peer_ids \<and> screen_name_of s = n
               \<and> fst (normalize_peer_ids vk peer_ids) = Inl (PeerNotRecognised s)" by simp
qed

text \<open>
  The claim as stated fails: with the name endpoint down, normalizing \<open>["durov"]\<close>
  does not end with the exception of the endpoint.
\<close>

theorem remote_errors_counterexample:
  "endpoint_down (screen_name_of ''durov'') = Inl (ApiError ''timeout'')
   \<and> fst (normalize_peer_ids endpoint_down [StrPeer ''durov''])
       = Inl (PeerNotRecognised ''durov'')
   \<and> fst (normalize_peer_ids endpoint_down [StrPeer ''durov'']) \<noteq> Inl (ApiError ''timeout'')"
  by (simp add: normalize_peer_ids_def normalize_loop_str resolve_screen_name_def
      endpoint_down_def Let_def)

theorem remote_errors_witness:
  "snd (fetch_history
        (\<lambda>p c off. if off = 0 then Inr \<lparr>reply_items = Some (replicate (nat c) [])\<rparr>
                    else Inl (ApiError ''timeout'')) 7 201 0.34)
     = [Request 7 200 0, Response (replicate 200 []), Sleep 0.34] @ Request 7 1 200 # []
   \<and> fst (fetch_history
        (\<lambda>p c off. if off = 0 then Inr \<lparr>reply_items = Some (replicate (nat c) [])\<rparr>
                    else Inl (ApiError ''timeout'')) 7 201 0.34)
     = Inl (ApiError ''timeout'')
   \<and> resolve_screen_name endpoint_down ''durov'' = (None, [screen_name_of ''durov''])
   \<and> normalize_peer_ids
        (\<lambda>n. if n = ''someuser'' then Inr (NameReply (Some ''user'') (Some 42))
              else Inl (ApiError ''timeout''))
        ([IntPeer 1, StrPeer ''someuser''] @ StrPeer ''durov'' # [StrPeer ''someuser''])
       = (Inl (PeerNotRecognised ''durov''), [''someuser''] @ ''durov'' # [])"
proof -
  let ?g = "\<lambda>(p::int) (c::int) (off::int).
      if off = 0 then Inr \<lparr>reply_items = Some (replicate (nat c) ([]::vk_message))\<rparr>
      else Inl (ApiError ''timeout'') :: error + history_reply"
  let ?vk = "\<lambda>n. if n = ''someuser'' then Inr (NameReply (Some ''user'') (Some 42))
              else Inl (ApiError ''timeout'') :: error + name_reply"
  let ?ps = "[IntPeer 1, StrPeer ''someuser''] @ StrPeer ''durov'' # [StrPeer ''someuser'']"
  have tr: "snd (fetch_history ?g 7 201 0.34)
     = [Request 7 200 0, Response (replicate 200 []), Sleep 0.34] @ Request 7 1 200 # []"
    by (simp add: fetch_history_def fetch_loop.simps get_items_def Let_def)
  have g: "?g 7 1 200 = Inl (ApiError ''timeout'')" by simp
  have a: "fst (fetch_history ?g 7 201 0.34) = Inl (ApiError ''timeout'')"
    using remote_errors[where getHistory="?g" and peer_id=7 and limit=201 and pause="0.34",
        THEN conjunct1] tr g
    by blast
  have d: "endpoint_down (screen_name_of ''durov'') = Inl (ApiError ''timeout'')"
    by (simp add: endpoint_down_def)
  have b: "resolve_screen_name endpoint_down ''durov'' = (None, [screen_name_of ''durov''])"
    using remote_errors[where vk=endpoint_down and pid="''durov''",
        THEN conjunct2, THEN conjunct2, THEN conjunct1] d
    by blast
  have sn: "screen_name_of ''durov'' = ''durov''" "screen_name_of ''someuser'' = ''someuser''"
    by (simp_all add: screen_name_of_def strip_def is_space_def startswith_def)
  have dn: "?vk (screen_name_of ''durov'') = Inl (ApiError ''timeout'')"
    by (simp add: sn)
  have good: "\<forall>p\<in>set [IntPeer 1, StrPeer ''someuser'']. spec_peer_id ?vk p \<noteq> None"
    by (simp add: resolve_screen_name_def sn Let_def)
  have c: "fst (normalize_peer_ids ?vk ?ps) = Inl (PeerNotRecognised ''durov'')"
    using remote_errors[where vk="?vk" and pid="''durov''"
        and good="[IntPeer 1, StrPeer ''someuser'']" and rest="[StrPeer ''someuser'']",
        THEN conjunct2, THEN conjunct2, THEN conjunct2, THEN conjunct1] good dn
    by blast
  have t: "snd (normalize_peer_ids ?vk ?ps) = [''someuser''] @ ''durov'' # []"
    by (simp add: normalize_peer_ids_def normalize_loop_str resolve_screen_name_def sn Let_def)
  have e: "([]::string list) = []"
    using remote_errors[where vk="?vk" and peer_ids="?ps",
        THEN conjunct2, THEN conjunct2, THEN conjunct2, THEN conjunct2] t dn[unfolded sn]
    by blast
  from c t have f: "normalize_peer_ids ?vk ?ps
      = (Inl (PeerNotRecognised ''durov''), [''someuser''] @ ''durov'' # [])"
    by (simp add: prod_eq_iff)
  from tr a b f show ?thesis by blast
qed

section \<open>Claims about the documents\<close>

lemma suffix_a_md: "path_suffix a_md = ''.md''"
  by (simp add: path_suffix_def a_md_def rfind_dot_def)

lemma suffix_b_txt: "path_suffix b_txt = ''.txt''"
  by (simp add: path_suffix_def b_txt_def rfind_dot_def)

text \<open>
  C9.  For each of the suffixes \<open>.pdf\<close>, \<open>.docx\<close>, \<open>.md\<close> and \<open>.pptx\<close>,
  \<open>get_document_loader\<close> returns the loader of that format, built on the path with the
  given \<open>mode\<close> and \<open>include_page_breaks\<close>, the languages \<open>['rus', 'eng']\<close> and the
  strategy \<open>auto\<close>; for any other suffix it returns an exception object whose message
  is built from that suffix.
\<close>

theorem get_document_loader_by_suffix:
  "(path_suffix p = ''.pdf'' \<longrightarrow>
      get_document_loader p m b =
        Loader \<lparr>loader_class = UnstructuredPDFLoader, file_path = as_posix p, mode = m,
                strategy = ''auto'', languages = [''rus'', ''eng''], include_page_breaks = b\<rparr>)
   \<and> (path_suffix p = ''.docx'' \<longrightarrow>
      get_document_loader p m b =
        Loader \<lparr>loader_class = UnstructuredWordDocumentLoader, file_path = as_posix p, mode = m,
                strategy = ''auto'', languages = [''rus'', ''eng''], include_page_breaks = b\<rparr>)
   \<and> (path_suffix p = ''.md'' \<longrightarrow>
      get_document_loader p m b =
        Loader \<lparr>loader_class = UnstructuredMarkdownLoader, file_path = as_posix p, mode = m,
                strategy = ''auto'', languages = [''rus'', ''eng''], include_page_breaks = b\<rparr>)
   \<and> (path_suffix p = ''.pptx'' \<longrightarrow>
      get_document_loader p m b =
        Loader \<lparr>loader_class = UnstructuredPowerPointLoader, file_path = as_posix p, mode = m,
                strategy = ''auto'', languages = [''rus'', ''eng''], include_page_breaks = b\<rparr>)
   \<and> (path_suffix p \<notin> {''.pdf'', ''.docx'', ''.md'', ''.pptx''} \<longrightarrow>
      get_document_loader p m b = ExceptionObject (UnsupportedFormat (path_suffix p)))"
  by (simp add: get_document_loader_def Let_def)

theorem get_document_loader_by_suffix_witness:
  "get_document_loader a_md ''elements'' True =
      Loader \<lparr>loader_class = UnstructuredMarkdownLoader, file_path = ''docs/a.md'',
              mode = ''elements'', strategy = ''auto'', languages = [''rus'', ''eng''],
              include_page_breaks = True\<rparr>
   \<and> get_document_loader b_txt ''single'' False = ExceptionObject (UnsupportedFormat ''.txt'')"
proof -
  have ns: "path_suffix b_txt \<notin> {''.pdf'', ''.docx'', ''.md'', ''.pptx''}"
    by (simp add: suffix_b_txt)
  have a: "get_document_loader a_md ''elements'' True =
      Loader \<lparr>loader_class = UnstructuredMarkdownLoader, file_path = as_posix a_md,
              mode = ''elements'', strategy = ''auto'', languages = [''rus'', ''eng''],
              include_page_breaks = True\<rparr>"
    using get_document_loader_by_suffix[where p=a_md and m="''elements''" and b=True] suffix_a_md
    by blast
  have b: "get_document_loader b_txt ''single'' False
      = ExceptionObject (UnsupportedFormat (path_suffix b_txt))"
    using get_document_loader_by_suffix[where p=b_txt and m="''single''" and b=False] ns
    by blast
  from a b show ?thesis by (simp add: suffix_b_txt a_md_def)
qed

subsection \<open>Telegram and VK documents\<close>

text \<open>
  \<open>get_messages_from_chats\<close> returns only for an empty list of chats, and then the
  empty list; for any other list it raises at the first chat, whatever the messages.
\<close>

lemma get_messages_from_chats_raises:
  "get_messages_from_chats iter_messages [] messages_limit = Inr []"
  "chats \<noteq> [] \<Longrightarrow> get_messages_from_chats iter_messages chats messages_limit = Inl TypeError"
  by (cases chats; simp add: get_messages_from_chats_def)+

lemma vk_document_shape:
  assumes "vk_message_to_document msg peer_id = Inr d"
  shows "map fst (metadata d) = [''platform'', ''peer_id'', ''message_id'', ''date'',
           ''from_id'', ''attachments'', ''has_forward'']"
    and "is_str (page_content d)"
    and "page_content d = py_or (dict_get msg ''text'') (PStr '''')"
  using assms
  by (auto simp: vk_message_to_document_def make_document_def Let_def
      split: sum.splits if_splits)

text \<open>
  C1, as the code has it by design, on the VK path.  Every document that
  \<open>_vk_message_to_document\<close> emits has a string as content, the empty string when
  the \<open>text\<close> of the message is absent, \<open>None\<close> or otherwise false, and its metadata
  has exactly the keys \<open>platform\<close>, \<open>peer_id\<close>, \<open>message_id\<close>, \<open>date\<close>,
  \<open>from_id\<close>, \<open>attachments\<close> and \<open>has_forward\<close>: it is not empty, and has neither
  \<open>source\<close> nor \<open>type\<close>.
\<close>

theorem documents_content_and_metadata:
  "vk_message_to_document msg peer_id = Inr d \<longrightarrow>
      is_str (page_content d)
      \<and> (\<not> truthy (dict_get msg ''text'') \<longrightarrow> page_content d = PStr '''')
      \<and> metadata d \<noteq> []
      \<and> map fst (metadata d) = [''platform'', ''peer_id'', ''message_id'', ''date'',
           ''from_id'', ''attachments'', ''has_forward'']
      \<and> map_of (metadata d) ''source'' = None \<and> map_of (metadata d) ''type'' = None"
proof (intro impI conjI)
  assume a: "vk_message_to_document msg peer_id = Inr d"
  from a show "is_str (page_content d)" by (rule vk_document_shape(2))
  from a have c: "page_content d = py_or (dict_get msg ''text'') (PStr '''')"
    by (rule vk_document_shape(3))
  then show "page_content d = PStr ''''" if "\<not> truthy (dict_get msg ''text'')"
    using that by (simp add: py_or_def)
  from a have keys: "map fst (metadata d) = [''platform'', ''peer_id'', ''message_id'',
           ''date'', ''from_id'', ''attachments'', ''has_forward'']"
    by (rule vk_document_shape(1))
  then show "map fst (metadata d) = [''platform'', ''peer_id'', ''message_id'',
           ''date'', ''from_id'', ''attachments'', ''has_forward'']" .
  from keys show "metadata d \<noteq> []" by auto
  have "''source'' \<notin> fst ` set (metadata d)" "''type'' \<notin> fst ` set (metadata d)"
    using keys by (simp_all flip: set_map)
  then show "map_of (metadata d) ''source'' = None" "map_of (metadata d) ''type'' = None"
    by (simp_all add: map_of_eq_None_iff)
qed

text \<open>
  The claim as stated fails on the VK path: the document of a message has neither
  the key \<open>source\<close> nor the key \<open>type\<close>.
\<close>

theorem documents_content_and_metadata_counterexample:
  "vk_message_to_document [(''id'', PInt 5), (''text'', PStr ''hi'')] 1 =
     Inr \<lparr>page_content = PStr ''hi'',
          metadata = [(''platform'', PStr ''vk''), (''peer_id'', PInt 1),
                      (''message_id'', PInt 5), (''date'', PNone), (''from_id'', PNone),
                      (''attachments'', PList []), (''has_forward'', PBool False)]\<rparr>
   \<and> map_of [(''platform'', PStr ''vk''), (''peer_id'', PInt 1),
             (''message_id'', PInt 5), (''date'', PNone), (''from_id'', PNone),
             (''attachments'', PList []), (''has_forward'', PBool False)] ''source'' = None
   \<and> map_of [(''platform'', PStr ''vk''), (''peer_id'', PInt 1),
             (''message_id'', PInt 5), (''date'', PNone), (''from_id'', PNone),
             (''attachments'', PList []), (''has_forward'', PBool False)] ''type'' = None"
  by (simp add: vk_message_to_document_def make_document_def is_str_def dict_get_def
      py_or_def)

theorem documents_content_and_metadata_witness:
  "vk_message_to_document [(''id'', PInt 5), (''text'', PNone)] 1 =
       Inr \<lparr>page_content = PStr '''',
            metadata = [(''platform'', PStr ''vk''), (''peer_id'', PInt 1),
                        (''message_id'', PInt 5), (''date'', PNone), (''from_id'', PNone),
                        (''attachments'', PList []), (''has_forward'', PBool False)]\<rparr>
   \<and> is_str (PStr '''')
   \<and> vk_message_to_document [(''id'', PInt 5), (''text'', PInt 3)] 1 = Inl ValidationError"
proof -
  let ?V = "\<lparr>page_content = PStr '''',
            metadata = [(''platform'', PStr ''vk''), (''peer_id'', PInt 1),
                        (''message_id'', PInt 5), (''date'', PNone), (''from_id'', PNone),
                        (''attachments'', PList []), (''has_forward'', PBool False)]\<rparr>"
  have vk: "vk_message_to_document [(''id'', PInt 5), (''text'', PNone)] 1 = Inr ?V"
    by (simp add: vk_message_to_document_def make_document_def is_str_def dict_get_def
        py_or_def)
  have a: "is_str (page_content ?V)"
    using documents_content_and_metadata[where msg="[(''id'', PInt 5), (''text'', PNone)]"
        and peer_id=1 and d="?V"] vk
    by blast
  have b: "vk_message_to_document [(''id'', PInt 5), (''text'', PInt 3)] 1
      = Inl ValidationError"
    by (simp add: vk_message_to_document_def make_document_def is_str_def dict_get_def
        py_or_def)
  from vk a b show ?thesis by simp
qed

subsection \<open>\<open>parse_document\<close> and \<open>parse_documents_in_dir\<close>\<close>

lemma set_source_metadata_length:
  "length (store (set_source_metadata p st a)) = length (store st)"
  by (simp add: set_source_metadata_def Let_def)

lemma foldl_set_source_metadata_length:
  "length (store (foldl (set_source_metadata p) st as)) = length (store st)"
  by (induction as arbitrary: st) (simp_all add: set_source_metadata_length)

lemma deref_fresh:
  "deref (st\<lparr>store := store st @ ds\<rparr>) [length (store st) ..< length (store st) + length ds]
     = ds"
  by (rule nth_equalityI) (simp_all add: deref_def nth_append)

lemma a_md_loader:
  "get_document_loader a_md ''single'' False =
     Loader \<lparr>loader_class = UnstructuredMarkdownLoader, file_path = ''docs/a.md'',
             mode = ''single'', strategy = ''auto'', languages = [''rus'', ''eng''],
             include_page_breaks = False\<rparr>"
  by (simp add: get_document_loader_def suffix_a_md Let_def) (simp add: a_md_def)

lemma parse_a_md:
  "parse_document one_block a_md empty_state =
      (Docs [1],
       \<lparr>store = [\<lparr>page_content = PStr ''hello'',
                   metadata = [(''source'', PStr ''a.md''), (''source_path'', PStr ''docs/a.md''),
                               (''type'', PStr ''Document'')]\<rparr>,
                 \<lparr>page_content = PStr ''hello'', metadata = [(''source'', PStr ''docs/a.md'')]\<rparr>],
        printed = []\<rparr>)"
  by (simp add: parse_document_def a_md_loader load_def one_block_def empty_state_def
      set_source_metadata_def Let_def) (simp add: a_md_def)

text \<open>
  C3 does not hold of the code.  When the loader parses the file, \<open>parse_document\<close>
  returns the documents of its second call of \<open>loader.load()\<close>, exactly as the
  backend built them: the three metadata entries were assigned to the documents of
  the first call, which are other objects.
\<close>

theorem parse_document_returns_second_load:
  "get_document_loader document_path ''single'' False = Loader ld \<and> backend ld = Inr ds \<longrightarrow>
     (\<exists>docs st'. parse_document backend document_path st = (Docs docs, st')
                \<and> deref st' docs = ds)"
proof
  assume a: "get_document_loader document_path ''single'' False = Loader ld
      \<and> backend ld = Inr ds"
  let ?st1 = "st\<lparr>store := store st @ ds\<rparr>"
  let ?refs = "[length (store st) ..< length (store st) + length ds]"
  let ?st2 = "foldl (set_source_metadata document_path) ?st1 ?refs"
  let ?st3 = "?st2\<lparr>store := store ?st2 @ ds\<rparr>"
  let ?refs' = "[length (store ?st2) ..< length (store ?st2) + length ds]"
  have "parse_document backend document_path st = (Docs ?refs', ?st3)"
    using a by (simp add: parse_document_def load_def Let_def)
  moreover have "deref ?st3 ?refs' = ds" by (rule deref_fresh)
  ultimately show "\<exists>docs st'. parse_document backend document_path st = (Docs docs, st')
                \<and> deref st' docs = ds" by blast
qed

text \<open>
  For \<open>docs/a.md\<close>: the document returned (address 1) has the path as \<open>source\<close> and
  no \<open>source_path\<close> and \<open>type\<close>; the document that was updated (address 0) is not
  returned.
\<close>

theorem parse_document_returns_second_load_witness:
  "fst (parse_document one_block a_md empty_state) = Docs [1]
   \<and> deref (snd (parse_document one_block a_md empty_state)) [1] =
       [\<lparr>page_content = PStr ''hello'', metadata = [(''source'', PStr ''docs/a.md'')]\<rparr>]
   \<and> deref (snd (parse_document one_block a_md empty_state)) [0] =
       [\<lparr>page_content = PStr ''hello'',
          metadata = [(''source'', PStr ''a.md''), (''source_path'', PStr ''docs/a.md''),
                      (''type'', PStr ''Document'')]\<rparr>]"
proof -
  let ?ld = "\<lparr>loader_class = UnstructuredMarkdownLoader, file_path = ''docs/a.md'',
              mode = ''single'', strategy = ''auto'', languages = [''rus'', ''eng''],
              include_page_breaks = False\<rparr>"
  let ?ds = "[\<lparr>page_content = PStr ''hello'', metadata = [(''source'', PStr ''docs/a.md'')]\<rparr>]"
  have bk: "one_block ?ld = Inr ?ds" by (simp add: one_block_def)
  have "\<exists>docs st'. parse_document one_block a_md empty_state = (Docs docs, st')
                \<and> deref st' docs = ?ds"
    using parse_document_returns_second_load[where document_path=a_md and ld="?ld"
        and backend=one_block and ds="?ds" and st=empty_state] a_md_loader bk
    by blast
  then have "deref (snd (parse_document one_block a_md empty_state)) [1] = ?ds"
    by (simp add: parse_a_md)
  then show ?thesis by (simp add: parse_a_md) (simp add: deref_def)
qed

lemma parse_document_unsupported:
  "path_suffix p \<notin> {''.pdf'', ''.docx'', ''.md'', ''.pptx''} \<Longrightarrow>
   parse_document backend p st =
     (ExcValue AttributeError, st\<lparr>printed := printed st @ [(path_str p, AttributeError)]\<rparr>)"
  by (simp add: parse_document_def get_document_loader_def Let_def)

lemma walk_loop_failure_raises:
  "e \<in> set entries \<Longrightarrow> (\<forall>s. \<exists>x s'. parse_document backend e s = (ExcValue x, s')) \<Longrightarrow>
   fst (walk_loop backend entries out st) = Inl TypeError"
proof (induction entries arbitrary: out st)
  case Nil
  then show ?case by simp
next
  case (Cons doc entries)
  show ?case
  proof (cases "parse_document backend doc st")
    case (Pair r st')
    show ?thesis
    proof (cases r)
      case (ExcValue x)
      with Pair show ?thesis by simp
    next
      case (Docs docs)
      with Pair Cons.prems have "e \<noteq> doc" by (metis parsed.distinct(1) prod.inject)
      with Cons.prems have "e \<in> set entries" by simp
      from Cons.IH[OF this Cons.prems(2)] Pair Docs show ?thesis by simp
    qed
  qed
qed

lemma parse_documents_in_dir_no_entries:
  "glob dir_path (if recursive then ''**/*'' else ''*'') = [] \<Longrightarrow>
   parse_documents_in_dir glob backend dir_path recursive st
     = (Inr (ExcValue (WrongPath (path_str dir_path))), st)"
  by (simp add: parse_documents_in_dir_def)

text \<open>
  C2 does not hold of the code.  Whenever the directory has an entry with an
  unsupported suffix, \<open>parse_documents_in_dir\<close> raises \<open>TypeError\<close>, whatever the other
  entries are: \<open>parse_document\<close> returns the exception it caught, \<open>if docs:\<close> is true
  for it, and \<open>out.extend(docs)\<close> raises.  The walk returns neither the documents of
  the other entries nor its own error value.
\<close>

theorem parse_documents_in_dir_aborts:
  "e \<in> set (glob dir_path (if recursive then ''**/*'' else ''*''))
   \<and> path_suffix e \<notin> {''.pdf'', ''.docx'', ''.md'', ''.pptx''} \<longrightarrow>
     fst (parse_documents_in_dir glob backend dir_path recursive st) = Inl TypeError"
proof
  assume a: "e \<in> set (glob dir_path (if recursive then ''**/*'' else ''*''))
   \<and> path_suffix e \<notin> {''.pdf'', ''.docx'', ''.md'', ''.pptx''}"
  then have "\<forall>s. \<exists>x s'. parse_document backend e s = (ExcValue x, s')"
    by (simp add: parse_document_unsupported)
  with a have "fst (walk_loop backend (glob dir_path (if recursive then ''**/*'' else ''*''))
      [] st) = Inl TypeError"
    by (blast intro: walk_loop_failure_raises)
  then show "fst (parse_documents_in_dir glob backend dir_path recursive st) = Inl TypeError"
    by (cases "walk_loop backend (glob dir_path (if recursive then ''**/*'' else ''*'')) [] st")
       (simp add: parse_documents_in_dir_def)
qed

text \<open>
  For the directory with \<open>a.md\<close>, which parses to one document, and \<open>b.txt\<close>: the
  walk raises.
\<close>

theorem parse_documents_in_dir_aborts_witness:
  "fst (parse_documents_in_dir listing one_block docs_dir True empty_state) = Inl TypeError
   \<and> listing docs_dir ''**/*'' = [a_md, b_txt]
   \<and> fst (parse_document one_block a_md empty_state) = Docs [1]"
proof -
  have m: "b_txt \<in> set (listing docs_dir (if True then ''**/*'' else ''*''))"
    by (simp add: listing_def)
  have ns: "path_suffix b_txt \<notin> {''.pdf'', ''.docx'', ''.md'', ''.pptx''}"
    by (simp add: suffix_b_txt)
  have a: "fst (parse_documents_in_dir listing one_block docs_dir True empty_state)
      = Inl TypeError"
    using parse_documents_in_dir_aborts[where e=b_txt and glob=listing and dir_path=docs_dir
        and recursive=True and backend=one_block and st=empty_state] m ns
    by blast
  from a show ?thesis by (simp add: listing_def parse_a_md)
qed

end
